theory Spec2Isabelle
  imports Main "HOL-Library.Sublist"
begin

section \<open>Python and Qt values\<close>

text \<open>
  The controller of \<^verbatim>\<open>qtodotxt/controllers/main_controller.py\<close> is a Python object
  whose methods mutate its attributes, call collaborators and may raise. The embedding
  passes the controller's state explicitly and makes every exception a value.

  An exception is its class and the text \<^verbatim>\<open>str(ex)\<close> gives. \<open>OSError\<close> stands for the
  class and all of its subclasses, \<open>OtherException\<close> for any class the controller never
  names.
\<close>

datatype exc_class = OSError | TypeError | ValueError | IndexError | AttributeError | OtherException

datatype exception = Error exc_class string

fun exc_class_of :: "exception \<Rightarrow> exc_class" where
  "exc_class_of (Error k m) = k"

fun py_str :: "exception \<Rightarrow> string" where
  "py_str (Error k m) = m"

text \<open>
  What \<^verbatim>\<open>QSettings.value\<close> hands back: the settings store keeps variants, and the code
  uses them through Python's truth test, \<^verbatim>\<open>int()\<close>, \<^verbatim>\<open>in\<close> and list methods.
\<close>

datatype qvariant = VNone | VBool bool | VInt int | VStr string | VList "string list"

fun truthy :: "qvariant \<Rightarrow> bool" where
  "truthy VNone = False"
| "truthy (VBool b) = b"
| "truthy (VInt i) = (i \<noteq> 0)"
| "truthy (VStr s) = (s \<noteq> [])"
| "truthy (VList xs) = (xs \<noteq> [])"

type_synonym qsettings = "string \<Rightarrow> qvariant option"

definition settings_value :: "qsettings \<Rightarrow> string \<Rightarrow> qvariant \<Rightarrow> qvariant" where
  "settings_value st key dflt = (case st key of None \<Rightarrow> dflt | Some v \<Rightarrow> v)"

definition setValue :: "qsettings \<Rightarrow> string \<Rightarrow> qvariant \<Rightarrow> qsettings" where
  "setValue st key v = st(key \<mapsto> v)"

subsection \<open>List and string operations of Python\<close>

text \<open>\<^verbatim>\<open>xs[i]\<close>: a negative index counts from the end, an index out of range raises.\<close>

definition py_getitem :: "'a list \<Rightarrow> int \<Rightarrow> exception + 'a" where
  "py_getitem xs i =
     (if 0 \<le> i \<and> i < int (length xs) then Inr (xs ! nat i)
      else if i < 0 \<and> - int (length xs) \<le> i then Inr (xs ! nat (int (length xs) + i))
      else Inl (Error IndexError ''list index out of range''))"

text \<open>\<^verbatim>\<open>xs.remove(x)\<close>: the first element equal to \<open>x\<close> goes; none raises.\<close>

definition py_remove :: "'a list \<Rightarrow> 'a \<Rightarrow> exception + 'a list" where
  "py_remove xs x =
     (if x \<in> set xs then Inr (remove1 x xs)
      else Inl (Error ValueError ''list.remove(x): x not in list''))"

text \<open>\<^verbatim>\<open>xs.insert(i, x)\<close>: the position is clipped to the list, never an error.\<close>

definition py_insert :: "'a list \<Rightarrow> int \<Rightarrow> 'a \<Rightarrow> 'a list" where
  "py_insert xs i x =
     (let n = int (length xs);
          j = (if i < 0 then max 0 (n + i) else min i n)
      in take (nat j) xs @ [x] @ drop (nat j) xs)"

text \<open>\<^verbatim>\<open>xs[:n]\<close>: a negative bound drops elements from the end.\<close>

definition py_slice_to :: "'a list \<Rightarrow> int \<Rightarrow> 'a list" where
  "py_slice_to xs n =
     (if 0 \<le> n then take (nat n) xs else take (length xs - nat (- n)) xs)"

text \<open>\<^verbatim>\<open>s.index(sub)\<close> on strings: the lowest position of the substring.\<close>

fun find_sub :: "string \<Rightarrow> string \<Rightarrow> nat option" where
  "find_sub [] sub = (if sub = [] then Some 0 else None)"
| "find_sub (x # xs) sub =
     (if prefix sub (x # xs) then Some 0 else map_option Suc (find_sub xs sub))"

definition str_index :: "string \<Rightarrow> qvariant \<Rightarrow> exception + nat" where
  "str_index s v =
     (case v of
        VStr sub \<Rightarrow>
          (case find_sub s sub of
             None \<Rightarrow> Inl (Error ValueError ''substring not found'')
           | Some i \<Rightarrow> Inr i)
      | _ \<Rightarrow> Inl (Error TypeError ''must be str''))"

definition ascii_uppercase :: string where
  "ascii_uppercase = ''ABCDEFGHIJKLMNOPQRSTUVWXYZ''"

text \<open>\<^verbatim>\<open>os.path.basename\<close> (POSIX): what follows the last slash.\<close>

definition basename :: "string \<Rightarrow> string" where
  "basename p = rev (takeWhile (\<lambda>ch. ch \<noteq> CHR ''/'') (rev p))"

text \<open>\<^verbatim>\<open>str.lower\<close>, on the ASCII letters.\<close>

definition ascii_lowercase :: string where
  "ascii_lowercase = ''abcdefghijklmnopqrstuvwxyz''"

definition lower_char :: "char \<Rightarrow> char" where
  "lower_char ch =
     (case map_of (zip ascii_uppercase ascii_lowercase) ch of None \<Rightarrow> ch | Some l \<Rightarrow> l)"

definition lower :: "string \<Rightarrow> string" where
  "lower s = map lower_char s"

section \<open>Tasks, the store and the collaborators\<close>

text \<open>
  A task object. \<open>ident\<close> is the object's identity: the spec allows duplicate lines,
  each a distinct instance, and \<^verbatim>\<open>list.remove\<close> compares objects. The other fields
  are the attributes the filter predicates read. A date is a day number.
\<close>

record task =
  ident :: nat
  "text" :: string
  is_complete :: bool
  dueDate :: "nat option"

text \<open>The \<^verbatim>\<open>File\<close> object as far as the controller reads it.\<close>

record todofile =
  filename :: string
  tasks :: "task list"

text \<open>
  Modelled from the spec: \<^verbatim>\<open>qtodotxt.lib.file.File\<close> is not among the sources. A new
  file is an empty store with no name (the title then shows ``Untitled'').
\<close>

definition File :: todofile where
  "File = \<lparr>filename = [], tasks = []\<rparr>"

text \<open>
  What the controller takes from outside: the file collaborator's loading and saving
  (their failure is all the controller sees of the disk), its context and project names,
  the parsing done by \<^verbatim>\<open>tasklib.Task\<close>, today's date, and \<^verbatim>\<open>int()\<close> on a string.
  Saving writes the store and leaves the object as it is; loading gives the object's new
  state or raises.
\<close>

record env =
  file_load :: "string \<Rightarrow> todofile \<Rightarrow> exception + todofile"
  file_save :: "string \<Rightarrow> todofile \<Rightarrow> exception option"
  getAllContexts :: "todofile \<Rightarrow> string list"
  getAllProjects :: "todofile \<Rightarrow> string list"
  parse_task :: "string \<Rightarrow> bool \<times> nat option"
  today :: nat
  int_of_str :: "string \<Rightarrow> int option"

definition Task :: "env \<Rightarrow> nat \<Rightarrow> string \<Rightarrow> task" where
  "Task env i txt =
     \<lparr>ident = i, text = txt, is_complete = fst (parse_task env txt),
      dueDate = snd (parse_task env txt)\<rparr>"

text \<open>\<^verbatim>\<open>int(v)\<close> on a settings value.\<close>

definition py_int :: "env \<Rightarrow> qvariant \<Rightarrow> exception + int" where
  "py_int env v =
     (case v of
        VBool b \<Rightarrow> Inr (if b then 1 else 0)
      | VInt i \<Rightarrow> Inr i
      | VStr s \<Rightarrow>
          (case int_of_str env s of
             None \<Rightarrow> Inl (Error ValueError ''invalid literal for int()'')
           | Some i \<Rightarrow> Inr i)
      | _ \<Rightarrow> Inl (Error TypeError ''int() argument must be a string or a number''))"

section \<open>Predicates and the filter evaluator\<close>

text \<open>
  Modelled from the spec: \<^verbatim>\<open>qtodotxt.lib.filters\<close> is not among the sources. The
  spec's predicate variants: text-contains (case-insensitive substring of the task's
  text), the future-hiding predicate (the future predicate, due date present and strictly
  after today, used inverted), is-complete and is-incomplete.
\<close>

datatype predicate = TextContains string | NotFuture | IsComplete | IsIncomplete

definition is_future :: "env \<Rightarrow> task \<Rightarrow> bool" where
  "is_future env t = (case dueDate t of None \<Rightarrow> False | Some d \<Rightarrow> today env < d)"

fun matches :: "env \<Rightarrow> predicate \<Rightarrow> task \<Rightarrow> bool" where
  "matches env (TextContains s) t = (find_sub (lower (text t)) (lower s) \<noteq> None)"
| "matches env NotFuture t = (\<not> is_future env t)"
| "matches env IsComplete t = is_complete t"
| "matches env IsIncomplete t = (\<not> is_complete t)"

text \<open>
  A filter group is a sequence of predicates. Each filter object the controller builds
  is, for the evaluator, one group.
\<close>

type_synonym filter_group = "predicate list"

definition SimpleTextFilter :: "string \<Rightarrow> filter_group" where
  "SimpleTextFilter s = [TextContains s]"

definition FutureFilter :: filter_group where
  "FutureFilter = [NotFuture]"

definition IncompleteTasksFilter :: filter_group where
  "IncompleteTasksFilter = [IsIncomplete]"

definition CompleteTasksFilter :: filter_group where
  "CompleteTasksFilter = [IsComplete]"

text \<open>
  Modelled from the spec: \<^verbatim>\<open>tasklib.filterTasks\<close> is not among the sources. A task
  passes a group when it matches one of its predicates (an empty group passes every
  task); it is kept when it passes every group. The result is a new list in the order of
  the input.
\<close>

definition passes_group :: "env \<Rightarrow> task \<Rightarrow> filter_group \<Rightarrow> bool" where
  "passes_group env t g = (g = [] \<or> list_ex (\<lambda>p. matches env p t) g)"

definition filterTasks :: "env \<Rightarrow> filter_group list \<Rightarrow> task list \<Rightarrow> task list" where
  "filterTasks env groups ts = filter (\<lambda>t. list_all (passes_group env t) groups) ts"

text \<open>
  Modelled from the spec: the same algorithm of \<^verbatim>\<open>tasklib.filterTasks\<close>, run as the
  loop the spec describes (for each task, for each group, the task must match at least
  one predicate of the group; an empty group passes), over calls that can fail. A
  predicate's \<^verbatim>\<open>matches\<close> is a call that gives a truth value or raises; an exception
  ends the whole evaluation; a group is left at its first match and a task at its first
  failing group. \<open>matches_call\<close> is the call for the spec's predicates, none of which
  has a failure case.
\<close>

type_synonym match_call = "predicate \<Rightarrow> task \<Rightarrow> exception + bool"

fun any_match :: "match_call \<Rightarrow> task \<Rightarrow> predicate list \<Rightarrow> exception + bool" where
  "any_match call t [] = Inr False"
| "any_match call t (p # ps) =
     (case call p t of
        Inl e \<Rightarrow> Inl e
      | Inr b \<Rightarrow> if b then Inr True else any_match call t ps)"

definition run_group :: "match_call \<Rightarrow> task \<Rightarrow> filter_group \<Rightarrow> exception + bool" where
  "run_group call t g = (if g = [] then Inr True else any_match call t g)"

fun run_groups :: "match_call \<Rightarrow> task \<Rightarrow> filter_group list \<Rightarrow> exception + bool" where
  "run_groups call t [] = Inr True"
| "run_groups call t (g # gs) =
     (case run_group call t g of
        Inl e \<Rightarrow> Inl e
      | Inr b \<Rightarrow> if b then run_groups call t gs else Inr False)"

fun run_filterTasks :: "match_call \<Rightarrow> filter_group list \<Rightarrow> task list \<Rightarrow> exception + task list" where
  "run_filterTasks call gs [] = Inr []"
| "run_filterTasks call gs (t # ts) =
     (case run_groups call t gs of
        Inl e \<Rightarrow> Inl e
      | Inr keep \<Rightarrow>
          (case run_filterTasks call gs ts of
             Inl e \<Rightarrow> Inl e
           | Inr ys \<Rightarrow> Inr (if keep then t # ys else ys)))"


section \<open>The controller\<close>

datatype signal =
    Sig_error string
  | Sig_completionChanged
  | Sig_filteredTasksChanged
  | Sig_modifiedChanged bool
  | Sig_titleChanged string
  | Sig_recentFilesChanged

text \<open>
  The attributes of \<^verbatim>\<open>MainController\<close>. \<open>emitted\<close> is the sequence of signals emitted
  so far, oldest first. The state of the filters tree controller is not part of the
  model.
\<close>

record controller =
  args_file :: "string option"
  filteredTasks :: "task list"
  settings :: qsettings
  showCompleted :: qvariant
  showFuture :: qvariant
  "file" :: todofile
  modified :: bool
  title :: string
  recentFiles :: qvariant
  searchText :: string
  currentFilters :: "filter_group list"
  completionStrings :: "string list"
  emitted :: "signal list"

text \<open>
  A method call ends by returning a value or by raising; either way the controller is
  left in some state.
\<close>

datatype 'a outcome = Returns 'a controller | Raises exception controller

fun state_of :: "'a outcome \<Rightarrow> controller" where
  "state_of (Returns x c) = c"
| "state_of (Raises e c) = c"

text \<open>Whether a call ended by returning.\<close>

fun returned :: "'a outcome \<Rightarrow> bool" where
  "returned (Returns x c) = True"
| "returned (Raises e c) = False"

definition and_then :: "'a outcome \<Rightarrow> ('a \<Rightarrow> controller \<Rightarrow> 'b outcome) \<Rightarrow> 'b outcome" where
  "and_then m f = (case m of Returns x c \<Rightarrow> f x c | Raises e c \<Rightarrow> Raises e c)"

definition emit :: "signal \<Rightarrow> controller \<Rightarrow> controller" where
  "emit s c = c\<lparr>emitted := emitted c @ [s]\<rparr>"

text \<open>
  \<^verbatim>\<open>_applyFilters\<close>: four calls of the evaluator in a row, three of them guarded. The
  test \<^verbatim>\<open>CompleteTasksFilter() in self._currentFilters\<close> compares filter objects by what
  they are (the spec's ``an explicit show-complete filter is active'').
\<close>

definition applyFilters :: "env \<Rightarrow> controller \<Rightarrow> controller" where
  "applyFilters env c =
     (let ts0 = filterTasks env (currentFilters c) (tasks (file c));
          ts1 = (if searchText c \<noteq> []
                 then filterTasks env [SimpleTextFilter (searchText c)] ts0 else ts0);
          ts2 = (if \<not> truthy (showFuture c)
                 then filterTasks env [FutureFilter] ts1 else ts1);
          ts3 = (if \<not> truthy (showCompleted c) \<and> CompleteTasksFilter \<notin> set (currentFilters c)
                 then filterTasks env [IncompleteTasksFilter] ts2 else ts2)
      in emit Sig_filteredTasksChanged (c\<lparr>filteredTasks := ts3\<rparr>))"

text \<open>
  The groups the spec says a re-filtering applies: the current groups, then the search
  group, the future-hiding group and the incomplete group, each under its condition.
\<close>

definition composed_groups :: "controller \<Rightarrow> filter_group list" where
  "composed_groups c =
     currentFilters c
     @ (if searchText c \<noteq> [] then [SimpleTextFilter (searchText c)] else [])
     @ (if \<not> truthy (showFuture c) then [FutureFilter] else [])
     @ (if \<not> truthy (showCompleted c) \<and> CompleteTasksFilter \<notin> set (currentFilters c)
        then [IncompleteTasksFilter] else [])"

text \<open>
  \<^verbatim>\<open>showError\<close>. The signal is declared \<^verbatim>\<open>error = pyqtSignal(str, arguments=["msg"])\<close>:
  its \<^verbatim>\<open>emit\<close> takes a \<^verbatim>\<open>str\<close> and raises \<^verbatim>\<open>TypeError\<close> on any other object.
  The callers pass a string (\<^verbatim>\<open>start\<close>: \<^verbatim>\<open>str(ex)\<close>; \<^verbatim>\<open>open\<close>: a formatted
  message) or the exception object itself (\<^verbatim>\<open>save\<close>: \<^verbatim>\<open>self.showError(ex)\<close>). The
  logging call before the emit has no effect on the controller.
\<close>

datatype pyobj = PyStr string | PyException exception

definition showError :: "pyobj \<Rightarrow> controller \<Rightarrow> unit outcome" where
  "showError msg c =
     (case msg of
        PyStr s \<Rightarrow> Returns () (emit (Sig_error s) c)
      | PyException ex \<Rightarrow>
          Raises (Error TypeError ''error[str].emit(): argument 1 has unexpected type'') c)"

text \<open>\<^verbatim>\<open>_updateTitle\<close>\<close>

definition updateTitle :: "controller \<Rightarrow> controller" where
  "updateTitle c =
     (let t0 = ''QTodoTxt - '';
          t1 = (if filename (file c) \<noteq> [] then t0 @ basename (filename (file c))
                else t0 @ ''Untitled'');
          t2 = (if modified c then t1 @ [CHR '' '', CHR ''('', CHR ''*'', CHR '')''] else t1)
      in emit (Sig_titleChanged t2) (c\<lparr>title := t2\<rparr>))"

text \<open>
  \<^verbatim>\<open>_updateCompletionStrings\<close>: \<^verbatim>\<open>string.ascii_uppercase.index\<close> raises when the
  \<^verbatim>\<open>lowest_priority\<close> setting is no substring of the alphabet or no string.
\<close>

definition updateCompletionStrings :: "env \<Rightarrow> controller \<Rightarrow> unit outcome" where
  "updateCompletionStrings env c =
     (let contexts = map (\<lambda>name. ''@'' @ name) (getAllContexts env (file c));
          projects = map (\<lambda>name. ''+'' @ name) (getAllProjects env (file c));
          lowest_priority = settings_value (settings c) ''lowest_priority'' (VStr ''D'')
      in case str_index ascii_uppercase lowest_priority of
           Inl e \<Rightarrow> Raises e c
         | Inr i \<Rightarrow>
             (let idx = i + 1;
                  priorities = map (\<lambda>val. ''('' @ [val] @ '')'') (take idx ascii_uppercase)
              in Returns () (emit Sig_completionChanged
                   (c\<lparr>completionStrings := contexts @ projects @ priorities @ [''due:'']\<rparr>))))"

text \<open>\<^verbatim>\<open>setModified\<close>\<close>

definition setModified :: "env \<Rightarrow> bool \<Rightarrow> controller \<Rightarrow> unit outcome" where
  "setModified env val c =
     and_then (updateCompletionStrings env (updateTitle (c\<lparr>modified := val\<rparr>)))
       (\<lambda>_ c1. Returns () (emit (Sig_modifiedChanged val) c1))"

text \<open>
  \<^verbatim>\<open>save\<close>: only an \<^verbatim>\<open>OSError\<close> of the file's \<^verbatim>\<open>save\<close> is handled, by
  \<^verbatim>\<open>self.showError(ex)\<close> and a return; the setting and the flag are written after the
  \<^verbatim>\<open>try\<close> statement.
\<close>

definition save :: "env \<Rightarrow> controller \<Rightarrow> unit outcome" where
  "save env c =
     (let fname = filename (file c)
      in case file_save env fname (file c) of
           Some ex \<Rightarrow>
             (if exc_class_of ex = OSError
              then and_then (showError (PyException ex) c) (\<lambda>_ c1. Returns () c1)
              else Raises ex c)
         | None \<Rightarrow>
             setModified env False
               (c\<lparr>settings := setValue (settings c) ''last_open_file'' (VStr fname)\<rparr>))"

text \<open>\<^verbatim>\<open>auto_save\<close>\<close>

definition auto_save :: "env \<Rightarrow> controller \<Rightarrow> unit outcome" where
  "auto_save env c =
     (case py_int env (settings_value (settings c) ''auto_save'' (VInt 1)) of
        Inl e \<Rightarrow> Raises e c
      | Inr n \<Rightarrow> if n \<noteq> 0 then save env c else Returns () c)"

text \<open>
  \<^verbatim>\<open>__init__\<close>, from the command line's file argument and the persisted settings. Both
  visibility flags are read under the key \<^verbatim>\<open>show_completed\<close>.
\<close>

definition init :: "env \<Rightarrow> string option \<Rightarrow> qsettings \<Rightarrow> unit outcome" where
  "init env args st =
     updateCompletionStrings env
       \<lparr>args_file = args,
        filteredTasks = [],
        settings = st,
        showCompleted = settings_value st ''show_completed'' (VBool False),
        showFuture = settings_value st ''show_completed'' (VBool True),
        file = File,
        modified = False,
        title = ''QTodoTxt'',
        recentFiles = settings_value st ''recent_files'' (VList []),
        searchText = [],
        currentFilters = [],
        completionStrings = [],
        emitted = []\<rparr>"

text \<open>\<^verbatim>\<open>_taskModified\<close>, the slot of every task's \<^verbatim>\<open>modified\<close> signal.\<close>

definition taskModified :: "env \<Rightarrow> task \<Rightarrow> controller \<Rightarrow> unit outcome" where
  "taskModified env t c =
     and_then (setModified env True c) (\<lambda>_ c1. auto_save env (applyFilters env c1))"

text \<open>
  \<^verbatim>\<open>newTask\<close>. The new object's identity is one no task of the controller has. The
  task goes to the end of the store and into the filtered list as it stands, behind
  position \<open>after\<close> (``force the new task to be visible''); the evaluator is not run.
  Connecting the task's signal to the slot changes no attribute of the controller.
\<close>

definition fresh_ident :: "controller \<Rightarrow> nat" where
  "fresh_ident c = Suc (fold max (map ident (tasks (file c) @ filteredTasks c)) 0)"

definition newTask :: "env \<Rightarrow> string \<Rightarrow> int option \<Rightarrow> controller \<Rightarrow> int outcome" where
  "newTask env txt after c =
     (let t = Task env (fresh_ident c) txt;
          after1 = (case after of None \<Rightarrow> int (length (filteredTasks c)) - 1 | Some a \<Rightarrow> a);
          c1 = c\<lparr>file := (file c)\<lparr>tasks := tasks (file c) @ [t]\<rparr>,
                 filteredTasks := py_insert (filteredTasks c) (after1 + 1) t\<rparr>
      in and_then (setModified env True c1) (\<lambda>_ c2.
         and_then (auto_save env c2) (\<lambda>_ c3.
         Returns (after1 + 1) (emit Sig_filteredTasksChanged c3))))"

text \<open>
  \<^verbatim>\<open>deleteTask\<close>: the argument is a task or, if it is no \<^verbatim>\<open>Task\<close> instance, an index
  into \<^verbatim>\<open>self.filteredTasks\<close>.
\<close>

datatype task_arg = ArgTask task | ArgIndex int

definition deleteTask :: "env \<Rightarrow> task_arg \<Rightarrow> controller \<Rightarrow> unit outcome" where
  "deleteTask env a c =
     (case (case a of ArgTask t \<Rightarrow> Inr t | ArgIndex i \<Rightarrow> py_getitem (filteredTasks c) i) of
        Inl e \<Rightarrow> Raises e c
      | Inr t \<Rightarrow>
          (case py_remove (tasks (file c)) t of
             Inl e \<Rightarrow> Raises e c
           | Inr ts \<Rightarrow>
               and_then (setModified env True (c\<lparr>file := (file c)\<lparr>tasks := ts\<rparr>\<rparr>))
                 (\<lambda>_ c1. Returns () (applyFilters env c1))))"

text \<open>
  \<^verbatim>\<open>updateRecentFile\<close>. The list is changed in place before \<^verbatim>\<open>int()\<close> can raise. A
  \<^verbatim>\<open>recent_files\<close> value that is a string has no \<^verbatim>\<open>remove\<close> or \<^verbatim>\<open>insert\<close>; other
  values cannot stand right of \<^verbatim>\<open>in\<close>.
\<close>

definition updateRecentFile :: "env \<Rightarrow> controller \<Rightarrow> unit outcome" where
  "updateRecentFile env c =
     (case recentFiles c of
        VList xs \<Rightarrow>
          (let fname = filename (file c);
               xs1 = (if fname \<in> set xs then remove1 fname xs else xs);
               xs2 = fname # xs1;
               c1 = c\<lparr>recentFiles := VList xs2\<rparr>
           in case py_int env (settings_value (settings c1) ''max_recent_files'' (VInt 6)) of
                Inl e \<Rightarrow> Raises e c1
              | Inr n \<Rightarrow>
                  (let xs3 = py_slice_to xs2 n
                   in Returns () (emit Sig_recentFilesChanged
                        (c1\<lparr>recentFiles := VList xs3,
                            settings := setValue (settings c1) ''recent_files'' (VList xs3)\<rparr>))))
      | VStr s \<Rightarrow> Raises (Error AttributeError ''str object has no such attribute'') c
      | _ \<Rightarrow> Raises (Error TypeError ''argument is not iterable'') c)"

text \<open>\<^verbatim>\<open>_loadFileToUI\<close>; showing the filters changes the filters tree only.\<close>

definition loadFileToUI :: "env \<Rightarrow> controller \<Rightarrow> unit outcome" where
  "loadFileToUI env c = setModified env False c"

text \<open>
  \<^verbatim>\<open>open\<close>: any exception of the file's \<^verbatim>\<open>load\<close> is handled, by \<^verbatim>\<open>showError\<close> with
  a formatted string and a return.
\<close>

definition open_file :: "env \<Rightarrow> string \<Rightarrow> controller \<Rightarrow> unit outcome" where
  "open_file env fname0 c =
     (let fname = (if prefix ''file:/'' fname0 then drop 6 fname0 else fname0)
      in case file_load env fname (file c) of
           Inl ex \<Rightarrow>
             and_then
               (showError (PyStr (''Error opening file: '' @ fname @ ''.'' @ [CHR 0x0A]
                                  @ '' Exception:'' @ py_str ex)) c)
               (\<lambda>_ c1. Returns () c1)
         | Inr f \<Rightarrow>
             and_then (loadFileToUI env (c\<lparr>file := f\<rparr>)) (\<lambda>_ c1.
               updateRecentFile env
                 (applyFilters env
                    (c1\<lparr>settings := setValue (settings c1) ''last_open_file'' (VStr fname)\<rparr>))))"

text \<open>
  Two states that agree on everything a re-filtering reads or writes, and on the recent
  files: the store, the filtered list, the current groups, the search text and the two
  toggles.
\<close>

definition same_view :: "controller \<Rightarrow> controller \<Rightarrow> bool" where
  "same_view c c' \<longleftrightarrow>
     filteredTasks c' = filteredTasks c \<and> file c' = file c \<and>
     currentFilters c' = currentFilters c \<and> searchText c' = searchText c \<and>
     showFuture c' = showFuture c \<and> showCompleted c' = showCompleted c \<and>
     recentFiles c' = recentFiles c"

section \<open>Concrete inputs\<close>

text \<open>
  Two tasks (the lines of the spec's scenarios), an environment in which one file cannot
  be read and another cannot be written, and two controller states. The settings of these
  inputs hold no string where a number is read, so \<open>int_of_str\<close> is never asked.
\<close>

definition t_done :: task where
  "t_done = \<lparr>ident = 1, text = ''x 2021-01-01 Clean garage +chores'', is_complete = True,
             dueDate = None\<rparr>"

definition t_milk :: task where
  "t_milk = \<lparr>ident = 2, text = ''(A) Buy milk @home due:2020-01-01'', is_complete = False,
             dueDate = Some 50\<rparr>"

definition env0 :: env where
  "env0 =
     \<lparr>file_load = (\<lambda>fname f.
          if fname = ''missing.txt'' then Inl (Error OSError ''No such file or directory'')
          else Inr \<lparr>filename = fname, tasks = [t_done, t_milk]\<rparr>),
      file_save = (\<lambda>fname f.
          if fname = ''readonly.txt'' then Some (Error OSError ''Permission denied'') else None),
      getAllContexts = (\<lambda>f. []),
      getAllProjects = (\<lambda>f. []),
      parse_task = (\<lambda>txt. (prefix ''x '' txt, None)),
      today = 100,
      int_of_str = (\<lambda>s. None)\<rparr>"

definition c_ro :: controller where
  "c_ro =
     \<lparr>args_file = None,
      filteredTasks = [t_milk],
      settings = Map.empty,
      showCompleted = VBool False,
      showFuture = VBool True,
      file = \<lparr>filename = ''readonly.txt'', tasks = [t_done, t_milk]\<rparr>,
      modified = True,
      title = ''QTodoTxt - readonly.txt'' @ [CHR '' '', CHR ''('', CHR ''*'', CHR '')''],
      recentFiles = VList [''readonly.txt'', ''readonly.txt''],
      searchText = [],
      currentFilters = [],
      completionStrings = [],
      emitted = []\<rparr>"

definition c_ex :: controller where
  "c_ex =
     \<lparr>args_file = None,
      filteredTasks = [t_milk],
      settings = Map.empty,
      showCompleted = VBool False,
      showFuture = VBool True,
      file = \<lparr>filename = ''todo.txt'', tasks = [t_done, t_milk]\<rparr>,
      modified = False,
      title = ''QTodoTxt - todo.txt'',
      recentFiles = VList [],
      searchText = ''Milk'',
      currentFilters = [],
      completionStrings = [],
      emitted = []\<rparr>"

lemmas model_defs =
  applyFilters_def filterTasks_def passes_group_def composed_groups_def
  SimpleTextFilter_def IncompleteTasksFilter_def CompleteTasksFilter_def FutureFilter_def
  emit_def lower_def lower_char_def ascii_uppercase_def ascii_lowercase_def is_future_def
  settings_value_def setValue_def py_getitem_def py_remove_def py_insert_def py_slice_to_def
  str_index_def basename_def py_int_def Task_def File_def and_then_def showError_def
  updateTitle_def updateCompletionStrings_def setModified_def save_def auto_save_def
  init_def taskModified_def fresh_ident_def newTask_def deleteTask_def updateRecentFile_def
  loadFileToUI_def open_file_def

lemmas input_defs = t_done_def t_milk_def env0_def c_ex_def c_ro_def

section \<open>Properties of the evaluator\<close>

lemma filterTasks_append:
  "filterTasks env (gs @ hs) ts = filterTasks env hs (filterTasks env gs ts)"
  by (simp add: filterTasks_def conj_commute)

lemma filterTasks_Nil: "filterTasks env [] ts = ts"
  by (simp add: filterTasks_def)

lemma filterTasks_subseq_input: "subseq (filterTasks env gs ts) ts"
  by (simp add: filterTasks_def)

lemma applyFilters_file: "file (applyFilters env c) = file c"
  by (simp add: applyFilters_def emit_def Let_def)

lemma applyFilters_unfold:
  "applyFilters env c =
     c\<lparr>filteredTasks := filterTasks env (composed_groups c) (tasks (file c)),
       emitted := emitted c @ [Sig_filteredTasksChanged]\<rparr>"
  by (simp add: applyFilters_def composed_groups_def emit_def Let_def
      filterTasks_append filterTasks_Nil)

lemma applyFilters_filteredTasks:
  "filteredTasks (applyFilters env c) = filterTasks env (composed_groups c) (tasks (file c))"
  by (simp add: applyFilters_unfold)

text \<open>
  C2. With no filter group at all the evaluator is the identity: every task list comes
  back as it is.
\<close>

theorem filterTasks_empty_groups: "filterTasks env [] ts = ts"
  by (simp add: filterTasks_def)

theorem filterTasks_empty_groups_witness:
  "filterTasks env0 [] [t_done, t_milk] = [t_done, t_milk]"
  using filterTasks_empty_groups [of env0 "[t_done, t_milk]"] by simp





lemma run_filterTasks_raises:
  "run_filterTasks (\<lambda>p t. Inl e) [[IsComplete]] [t_done] = Inl e
   \<and> run_filterTasks (\<lambda>p t. Inl e) [[]] [t_done] = Inr [t_done]
   \<and> run_filterTasks (\<lambda>p t. if p = IsComplete then Inr True else Inl e)
        [[IsComplete, NotFuture]] [t_done] = Inr [t_done]"
  by (simp add: run_group_def)




text \<open>
  C4. Whatever the groups, the evaluator's output is a subsequence of its input: the
  surviving tasks, unchanged and in their order. The same holds for the filtered list of
  the controller against the store, which the re-filtering leaves as it was.
\<close>

theorem filtering_preserves_order:
  "subseq (filterTasks env gs ts) ts
   \<and> subseq (filteredTasks (applyFilters env c)) (tasks (file c))
   \<and> file (applyFilters env c) = file c"
  by (simp add: filterTasks_subseq_input applyFilters_filteredTasks applyFilters_file)

theorem filtering_preserves_order_witness:
  "subseq (filterTasks env0 [[IsIncomplete]] [t_done, t_milk]) [t_done, t_milk]
   \<and> filterTasks env0 [[IsIncomplete]] [t_done, t_milk] = [t_milk]
   \<and> subseq (filteredTasks (applyFilters env0 c_ex)) [t_done, t_milk]"
  using filtering_preserves_order [of env0 "[[IsIncomplete]]" "[t_done, t_milk]" c_ex]
  by (simp add: filterTasks_def passes_group_def input_defs)

section \<open>Properties of the controller\<close>

text \<open>
  C1. A re-filtering sets the filtered list to what the evaluator keeps of the store under
  the current groups, the search group if the search text is not empty, the future-hiding
  group if the future toggle is off, and the incomplete group if the completion toggle is
  off and the complete filter is not among the current ones; all groups together, which
  is their conjunction. It emits the change signal and touches nothing else.
\<close>

theorem applyFilters_composition:
  "applyFilters env c =
     c\<lparr>filteredTasks := filterTasks env (composed_groups c) (tasks (file c)),
       emitted := emitted c @ [Sig_filteredTasksChanged]\<rparr>"
  by (rule applyFilters_unfold)

theorem applyFilters_composition_witness:
  "applyFilters env0 c_ex = c_ex\<lparr>filteredTasks := [t_milk], emitted := [Sig_filteredTasksChanged]\<rparr>
   \<and> composed_groups c_ex = [[TextContains ''Milk''], [IsIncomplete]]"
  using applyFilters_composition [of env0 c_ex]
  by (simp add: model_defs input_defs)

section \<open>What the methods leave alone\<close>

lemma composed_groups_cong:
  "currentFilters c' = currentFilters c \<Longrightarrow> searchText c' = searchText c \<Longrightarrow>
   showFuture c' = showFuture c \<Longrightarrow> showCompleted c' = showCompleted c \<Longrightarrow>
   composed_groups c' = composed_groups c"
  by (simp add: composed_groups_def)

lemma same_view_refl: "same_view c c"
  by (simp add: same_view_def)

lemma same_view_trans: "same_view a b \<Longrightarrow> same_view b c \<Longrightarrow> same_view a c"
  by (simp add: same_view_def)

lemma same_view_composed_groups: "same_view c c' \<Longrightarrow> composed_groups c' = composed_groups c"
  by (rule composed_groups_cong) (simp_all add: same_view_def)

lemma updateCompletionStrings_view: "same_view c (state_of (updateCompletionStrings env c))"
  by (simp add: same_view_def updateCompletionStrings_def emit_def Let_def split: sum.splits)

lemma updateCompletionStrings_modified:
  "modified (state_of (updateCompletionStrings env c)) = modified c"
  by (simp add: updateCompletionStrings_def emit_def Let_def split: sum.splits)

lemma updateCompletionStrings_settings:
  "settings (state_of (updateCompletionStrings env c)) = settings c"
  by (simp add: updateCompletionStrings_def emit_def Let_def split: sum.splits)

lemma state_of_setModified:
  "state_of (setModified env v c) = state_of (updateCompletionStrings env (updateTitle (c\<lparr>modified := v\<rparr>)))
   \<or> state_of (setModified env v c) =
       emit (Sig_modifiedChanged v) (state_of (updateCompletionStrings env (updateTitle (c\<lparr>modified := v\<rparr>))))"
  by (cases "updateCompletionStrings env (updateTitle (c\<lparr>modified := v\<rparr>))")
     (simp_all add: setModified_def and_then_def)

lemma setModified_view: "same_view c (state_of (setModified env v c))"
proof -
  have "same_view c (updateTitle (c\<lparr>modified := v\<rparr>))"
    by (simp add: same_view_def updateTitle_def emit_def Let_def)
  then have "same_view c (state_of (updateCompletionStrings env (updateTitle (c\<lparr>modified := v\<rparr>))))"
    using updateCompletionStrings_view same_view_trans by blast
  then show ?thesis
    using state_of_setModified [of env v c] by (auto simp: same_view_def emit_def)
qed

lemma setModified_modified: "modified (state_of (setModified env v c)) = v"
proof -
  have "modified (state_of (updateCompletionStrings env (updateTitle (c\<lparr>modified := v\<rparr>)))) = v"
    by (simp add: updateCompletionStrings_modified updateTitle_def emit_def Let_def)
  then show ?thesis
    using state_of_setModified [of env v c] by (auto simp: emit_def)
qed

lemma setModified_settings: "settings (state_of (setModified env v c)) = settings c"
proof -
  have "settings (state_of (updateCompletionStrings env (updateTitle (c\<lparr>modified := v\<rparr>)))) = settings c"
    by (simp add: updateCompletionStrings_settings updateTitle_def emit_def Let_def)
  then show ?thesis
    using state_of_setModified [of env v c] by (auto simp: emit_def)
qed

lemma save_view: "same_view c (state_of (save env c))"
proof (cases "file_save env (filename (file c)) (file c)")
  case None
  have "same_view (c\<lparr>settings := setValue (settings c) ''last_open_file'' (VStr (filename (file c)))\<rparr>)
          (state_of (save env c))"
    using None setModified_view
      [of "c\<lparr>settings := setValue (settings c) ''last_open_file'' (VStr (filename (file c)))\<rparr>" env False]
    by (simp add: save_def Let_def)
  then show ?thesis by (simp add: same_view_def)
next
  case (Some ex)
  then show ?thesis
    by (simp add: save_def Let_def showError_def and_then_def same_view_def)
qed

lemma auto_save_view: "same_view c (state_of (auto_save env c))"
  using save_view [of c env]
  by (simp add: auto_save_def same_view_def split: sum.splits)

lemma and_then_Returns:
  "and_then m f = Returns y c' \<Longrightarrow> \<exists>x c1. m = Returns x c1 \<and> f x c1 = Returns y c'"
  by (cases m) (simp_all add: and_then_def)

section \<open>When the methods return\<close>

lemma updateCompletionStrings_returns:
  "settings c ''lowest_priority'' = None \<Longrightarrow> returned (updateCompletionStrings env c)"
  by (simp add: updateCompletionStrings_def settings_value_def str_index_def ascii_uppercase_def Let_def)

lemma setModified_returns:
  assumes "settings c ''lowest_priority'' = None"
  shows "returned (setModified env v c)"
proof -
  have "settings (updateTitle (c\<lparr>modified := v\<rparr>)) ''lowest_priority'' = None"
    using assms by (simp add: updateTitle_def emit_def Let_def)
  from updateCompletionStrings_returns [OF this, of env]
  show ?thesis
    by (cases "updateCompletionStrings env (updateTitle (c\<lparr>modified := v\<rparr>))")
       (simp_all add: setModified_def and_then_def)
qed

lemma save_returns:
  assumes "settings c ''lowest_priority'' = None" "file_save env (filename (file c)) (file c) = None"
  shows "returned (save env c)"
  using assms by (simp add: save_def Let_def setValue_def setModified_returns)

lemma auto_save_returns:
  assumes "settings c ''lowest_priority'' = None" "settings c ''auto_save'' = None"
    "file_save env (filename (file c)) (file c) = None"
  shows "returned (auto_save env c)"
  using assms by (simp add: auto_save_def settings_value_def py_int_def save_returns)

lemma refiltered_view:
  assumes "same_view (applyFilters env c) c'"
  shows "filteredTasks c' = filterTasks env (composed_groups c') (tasks (file c'))"
proof -
  have "composed_groups c' = composed_groups (applyFilters env c)"
    using assms by (rule same_view_composed_groups)
  also have "\<dots> = composed_groups c"
    by (rule composed_groups_cong) (simp_all add: applyFilters_unfold)
  finally have "composed_groups c' = composed_groups c" .
  moreover have "file c' = file c" "filteredTasks c' = filteredTasks (applyFilters env c)"
    using assms by (simp_all add: same_view_def applyFilters_unfold)
  ultimately show ?thesis by (simp add: applyFilters_filteredTasks)
qed

section \<open>deleteTask\<close>

lemma deleteTask_target:
  assumes "(case a of ArgTask t \<Rightarrow> Inr t | ArgIndex i \<Rightarrow> py_getitem (filteredTasks c) i) = Inr t"
    and "t \<in> set (tasks (file c))"
  shows "deleteTask env a c =
     and_then (setModified env True (c\<lparr>file := (file c)\<lparr>tasks := remove1 t (tasks (file c))\<rparr>\<rparr>))
       (\<lambda>_ c1. Returns () (applyFilters env c1))"
  using assms by (simp add: deleteTask_def py_remove_def)

lemma deleteTask_store:
  assumes "(case a of ArgTask t \<Rightarrow> Inr t | ArgIndex i \<Rightarrow> py_getitem (filteredTasks c) i) = Inr t"
    and "t \<in> set (tasks (file c))"
  shows "tasks (file (state_of (deleteTask env a c))) = remove1 t (tasks (file c))"
proof -
  define c0 where "c0 = c\<lparr>file := (file c)\<lparr>tasks := remove1 t (tasks (file c))\<rparr>\<rparr>"
  have v: "file (state_of (setModified env True c0)) = file c0"
    using setModified_view [of c0 env True] by (simp add: same_view_def)
  have "file (state_of (deleteTask env a c)) = file c0"
    unfolding deleteTask_target [OF assms] c0_def [symmetric]
    using v by (cases "setModified env True c0") (simp_all add: and_then_def applyFilters_file)
  then show ?thesis by (simp add: c0_def)
qed

lemma deleteTask_returns:
  assumes "(case a of ArgTask t \<Rightarrow> Inr t | ArgIndex i \<Rightarrow> py_getitem (filteredTasks c) i) = Inr t"
    and "t \<in> set (tasks (file c))" and "settings c ''lowest_priority'' = None"
  shows "returned (deleteTask env a c)"
proof -
  define c0 where "c0 = c\<lparr>file := (file c)\<lparr>tasks := remove1 t (tasks (file c))\<rparr>\<rparr>"
  have "returned (setModified env True c0)"
    using assms(3) by (intro setModified_returns) (simp add: c0_def)
  then show ?thesis
    unfolding deleteTask_target [OF assms(1,2)] c0_def [symmetric]
    by (cases "setModified env True c0") (simp_all add: and_then_def)
qed

lemma deleteTask_Returns_refiltered:
  assumes "deleteTask env a c = Returns u c'"
  shows "filteredTasks c' = filterTasks env (composed_groups c') (tasks (file c'))"
proof -
  from assms obtain c1 where "c' = applyFilters env c1"
    by (auto simp: deleteTask_def dest!: and_then_Returns split: sum.splits)
  then show ?thesis
    using refiltered_view [OF same_view_refl] by simp
qed

lemma deleteTask_refiltered:
  assumes "returned (deleteTask env a c)"
  shows "filteredTasks (state_of (deleteTask env a c)) =
         filterTasks env (composed_groups (state_of (deleteTask env a c)))
           (tasks (file (state_of (deleteTask env a c))))"
  using assms deleteTask_Returns_refiltered [of env a c]
  by (cases "deleteTask env a c") simp_all

lemma deleteTask_composed_groups:
  "composed_groups (state_of (deleteTask env a c)) = composed_groups c"
proof (cases "(case a of ArgTask t \<Rightarrow> Inr t | ArgIndex i \<Rightarrow> py_getitem (filteredTasks c) i)")
  case (Inl e)
  then show ?thesis by (simp add: deleteTask_def)
next
  case (Inr t)
  show ?thesis
  proof (cases "t \<in> set (tasks (file c))")
    case False
    with Inr show ?thesis by (simp add: deleteTask_def py_remove_def)
  next
    case True
    define c0 where "c0 = c\<lparr>file := (file c)\<lparr>tasks := remove1 t (tasks (file c))\<rparr>\<rparr>"
    have 0: "composed_groups c0 = composed_groups c"
      by (rule composed_groups_cong) (simp_all add: c0_def)
    have 1: "composed_groups (state_of (setModified env True c0)) = composed_groups c0"
      using setModified_view [of c0 env True] by (rule same_view_composed_groups)
    have 2: "composed_groups (applyFilters env c1) = composed_groups c1" for c1
      by (rule composed_groups_cong) (simp_all add: applyFilters_unfold)
    show ?thesis
      unfolding deleteTask_target [OF Inr True] c0_def [symmetric]
      using 0 1 2 by (cases "setModified env True c0") (simp_all add: and_then_def)
  qed
qed

section \<open>taskModified\<close>

lemma taskModified_Returns_refiltered:
  assumes "taskModified env t c = Returns u c'"
  shows "filteredTasks c' = filterTasks env (composed_groups c') (tasks (file c'))"
proof -
  from assms obtain c1 where "auto_save env (applyFilters env c1) = Returns u c'"
    by (auto simp: taskModified_def dest!: and_then_Returns)
  then have "same_view (applyFilters env c1) c'"
    using auto_save_view [of "applyFilters env c1" env] by simp
  then show ?thesis by (rule refiltered_view)
qed

lemma taskModified_refiltered:
  assumes "returned (taskModified env t c)"
  shows "filteredTasks (state_of (taskModified env t c)) =
         filterTasks env (composed_groups (state_of (taskModified env t c)))
           (tasks (file (state_of (taskModified env t c))))"
  using assms taskModified_Returns_refiltered [of env t c]
  by (cases "taskModified env t c") simp_all

lemma taskModified_returns:
  assumes "settings c ''lowest_priority'' = None" "settings c ''auto_save'' = None"
    "\<And>f. file_save env (filename (file c)) f = None"
  shows "returned (taskModified env t c)"
proof -
  have r: "returned (setModified env True c)"
    using assms(1) by (rule setModified_returns)
  define c1 where "c1 = state_of (setModified env True c)"
  have c1: "settings c1 = settings c" "file c1 = file c"
    using setModified_settings [of env True c] setModified_view [of c env True]
    by (simp_all add: c1_def same_view_def)
  have "returned (auto_save env (applyFilters env c1))"
    using assms c1 by (intro auto_save_returns) (simp_all add: applyFilters_unfold)
  then show ?thesis
    using r by (cases "setModified env True c") (simp_all add: taskModified_def and_then_def c1_def)
qed

lemma taskModified_store_groups:
  "file (state_of (taskModified env t c)) = file c
   \<and> composed_groups (state_of (taskModified env t c)) = composed_groups c"
proof -
  define c1 where "c1 = state_of (setModified env True c)"
  have 1: "same_view c c1"
    unfolding c1_def by (rule setModified_view)
  have 2: "file (applyFilters env c1) = file c1"
      "composed_groups (applyFilters env c1) = composed_groups c1"
    by (simp add: applyFilters_file, rule composed_groups_cong) (simp_all add: applyFilters_unfold)
  have 3: "same_view (applyFilters env c1) (state_of (auto_save env (applyFilters env c1)))"
    by (rule auto_save_view)
  have 4: "file c1 = file c" "composed_groups c1 = composed_groups c"
    using 1 by (simp add: same_view_def, intro same_view_composed_groups)
  have 5: "file (state_of (auto_save env (applyFilters env c1))) = file c"
      "composed_groups (state_of (auto_save env (applyFilters env c1))) = composed_groups c"
    using 2 3 4 same_view_composed_groups [OF 3] by (simp_all add: same_view_def)
  show ?thesis
    using 4 5 by (cases "setModified env True c") (simp_all add: taskModified_def and_then_def c1_def)
qed

section \<open>newTask\<close>

lemma newTask_forces_visible:
  assumes "newTask env txt after c = Returns k c'"
  shows "k = (case after of None \<Rightarrow> int (length (filteredTasks c)) - 1 | Some a \<Rightarrow> a) + 1
     \<and> tasks (file c') = tasks (file c) @ [Task env (fresh_ident c) txt]
     \<and> filteredTasks c' = py_insert (filteredTasks c) k (Task env (fresh_ident c) txt)
     \<and> composed_groups c' = composed_groups c"
proof -
  define t where "t = Task env (fresh_ident c) txt"
  define a1 where "a1 = (case after of None \<Rightarrow> int (length (filteredTasks c)) - 1 | Some a \<Rightarrow> a)"
  define c1 where "c1 = c\<lparr>file := (file c)\<lparr>tasks := tasks (file c) @ [t]\<rparr>,
                 filteredTasks := py_insert (filteredTasks c) (a1 + 1) t\<rparr>"
  from assms obtain c2 c3 where
    s: "setModified env True c1 = Returns () c2" and
    a: "auto_save env c2 = Returns () c3" and
    r: "k = a1 + 1" "c' = emit Sig_filteredTasksChanged c3"
    by (auto simp: newTask_def Let_def t_def a1_def c1_def dest!: and_then_Returns)
  have "same_view c1 c2" using setModified_view [of c1 env True] s by simp
  moreover have "same_view c2 c3" using auto_save_view [of c2 env] a by simp
  ultimately have v: "same_view c1 c'"
    using r by (simp add: same_view_def emit_def)
  have "composed_groups c' = composed_groups c1"
    using v by (rule same_view_composed_groups)
  also have "\<dots> = composed_groups c"
    by (rule composed_groups_cong) (simp_all add: c1_def)
  finally show ?thesis
    using r v by (simp add: same_view_def c1_def t_def a1_def)
qed

lemma newTask_returns:
  assumes "settings c ''lowest_priority'' = None" "settings c ''auto_save'' = None"
    "\<And>f. file_save env (filename (file c)) f = None"
  shows "\<exists>c'. newTask env txt after c =
     Returns ((case after of None \<Rightarrow> int (length (filteredTasks c)) - 1 | Some a \<Rightarrow> a) + 1) c'"
proof -
  define t where "t = Task env (fresh_ident c) txt"
  define a1 where "a1 = (case after of None \<Rightarrow> int (length (filteredTasks c)) - 1 | Some a \<Rightarrow> a)"
  define c1 where "c1 = c\<lparr>file := (file c)\<lparr>tasks := tasks (file c) @ [t]\<rparr>,
                 filteredTasks := py_insert (filteredTasks c) (a1 + 1) t\<rparr>"
  have "returned (setModified env True c1)"
    using assms(1) by (intro setModified_returns) (simp add: c1_def)
  then obtain c2 where s: "setModified env True c1 = Returns () c2"
    by (cases "setModified env True c1") simp_all
  have c2: "settings c2 = settings c" "filename (file c2) = filename (file c)"
    using setModified_settings [of env True c1] setModified_view [of c1 env True] s
    by (simp_all add: same_view_def c1_def)
  have "returned (auto_save env c2)"
    using assms c2 by (intro auto_save_returns) simp_all
  then obtain c3 where a: "auto_save env c2 = Returns () c3"
    by (cases "auto_save env c2") simp_all
  show ?thesis
    using s a by (simp add: newTask_def Let_def and_then_def t_def a1_def c1_def)
qed

text \<open>
  C5, amended. When \<^verbatim>\<open>deleteTask\<close> or the task-edit slot \<^verbatim>\<open>_taskModified\<close> returns,
  the filtered list is what the evaluator keeps of the store as it then is, under the
  groups, search text and toggles as they then are. \<^verbatim>\<open>newTask\<close> does not run the
  evaluator: when it returns, the new task is the last of the store and has been inserted
  into the filtered list as it stood, at the position the call returns.
\<close>

theorem refilter_after_mutation:
  "(returned (deleteTask env a c) \<longrightarrow>
      filteredTasks (state_of (deleteTask env a c)) =
        filterTasks env (composed_groups (state_of (deleteTask env a c)))
          (tasks (file (state_of (deleteTask env a c)))))
   \<and> (returned (taskModified env t c) \<longrightarrow>
      filteredTasks (state_of (taskModified env t c)) =
        filterTasks env (composed_groups (state_of (taskModified env t c)))
          (tasks (file (state_of (taskModified env t c)))))
   \<and> (newTask env txt after c = Returns k c' \<longrightarrow>
      k = (case after of None \<Rightarrow> int (length (filteredTasks c)) - 1 | Some a \<Rightarrow> a) + 1
      \<and> tasks (file c') = tasks (file c) @ [Task env (fresh_ident c) txt]
      \<and> filteredTasks c' = py_insert (filteredTasks c) k (Task env (fresh_ident c) txt))"
  using deleteTask_refiltered taskModified_refiltered newTask_forces_visible by blast

text \<open>The calls on the concrete inputs.\<close>

lemma env0_file_save: "fname \<noteq> ''readonly.txt'' \<Longrightarrow> file_save env0 fname f = None"
  by (simp add: env0_def)

lemma c_ex_fields:
  "settings c_ex = Map.empty" "filename (file c_ex) = ''todo.txt''"
  "tasks (file c_ex) = [t_done, t_milk]" "filteredTasks c_ex = [t_milk]"
  "composed_groups c_ex = [[TextContains ''Milk''], [IsIncomplete]]"
  by (simp_all add: c_ex_def composed_groups_def SimpleTextFilter_def IncompleteTasksFilter_def
      CompleteTasksFilter_def)

lemma fresh_ident_c_ex: "fresh_ident c_ex = 3"
  by (simp add: fresh_ident_def c_ex_def t_done_def t_milk_def)

lemma newTask_c_ex:
  "\<exists>c'. newTask env0 [] None c_ex = Returns 1 c'
     \<and> filteredTasks c' = [t_milk, Task env0 3 []]
     \<and> tasks (file c') = [t_done, t_milk, Task env0 3 []]
     \<and> composed_groups c' = [[TextContains ''Milk''], [IsIncomplete]]"
proof -
  from newTask_returns [of c_ex env0 "[]" None]
  obtain c' where r: "newTask env0 [] None c_ex = Returns 1 c'"
    by (auto simp: c_ex_fields env0_file_save)
  from newTask_forces_visible [OF r] show ?thesis
    using r by (simp add: c_ex_fields fresh_ident_c_ex py_insert_def)
qed

lemma milk_filtered:
  "filterTasks env0 [[TextContains ''Milk''], [IsIncomplete]] [t_done, t_milk, Task env0 3 []] = [t_milk]"
  by (simp add: filterTasks_def passes_group_def lower_def lower_char_def ascii_uppercase_def
      ascii_lowercase_def t_done_def t_milk_def Task_def env0_def)

text \<open>
  C5. As stated the claim covers \<^verbatim>\<open>newTask\<close> as well. With the search text ``Milk'' a
  new task with an empty line is in the filtered list after \<^verbatim>\<open>newTask\<close>, while the
  evaluator keeps only the milk task of the store.
\<close>

theorem newTask_not_refiltered_counterexample:
  "returned (newTask env0 [] None c_ex)
   \<and> filteredTasks (state_of (newTask env0 [] None c_ex)) = [t_milk, Task env0 3 []]
   \<and> filterTasks env0 (composed_groups (state_of (newTask env0 [] None c_ex)))
        (tasks (file (state_of (newTask env0 [] None c_ex)))) = [t_milk]"
  using newTask_c_ex by (auto simp: milk_filtered)

lemma done_filtered:
  "filterTasks env0 [[TextContains ''Milk''], [IsIncomplete]] [t_done] = []"
  by (simp add: filterTasks_def passes_group_def t_done_def)

lemma done_milk_filtered:
  "filterTasks env0 [[TextContains ''Milk''], [IsIncomplete]] [t_done, t_milk] = [t_milk]"
  by (simp add: filterTasks_def passes_group_def lower_def lower_char_def ascii_uppercase_def
      ascii_lowercase_def t_done_def t_milk_def)

theorem refilter_after_mutation_witness:
  "returned (deleteTask env0 (ArgIndex 0) c_ex)
   \<and> tasks (file (state_of (deleteTask env0 (ArgIndex 0) c_ex))) = [t_done]
   \<and> filteredTasks (state_of (deleteTask env0 (ArgIndex 0) c_ex)) = []
   \<and> returned (taskModified env0 t_milk c_ex)
   \<and> filteredTasks (state_of (taskModified env0 t_milk c_ex)) = [t_milk]
   \<and> newTask env0 [] None c_ex = Returns 1 (state_of (newTask env0 [] None c_ex))
   \<and> filteredTasks (state_of (newTask env0 [] None c_ex)) = [t_milk, Task env0 3 []]"
proof -
  have g: "(case ArgIndex 0 of ArgTask t \<Rightarrow> Inr t | ArgIndex i \<Rightarrow> py_getitem (filteredTasks c_ex) i) = Inr t_milk"
    by (simp add: c_ex_fields py_getitem_def)
  have d: "returned (deleteTask env0 (ArgIndex 0) c_ex)"
    using g by (rule deleteTask_returns) (simp_all add: c_ex_fields)
  have s: "tasks (file (state_of (deleteTask env0 (ArgIndex 0) c_ex))) = [t_done]"
    using deleteTask_store [OF g, of env0] by (simp add: c_ex_fields t_done_def t_milk_def)
  have m: "returned (taskModified env0 t_milk c_ex)"
    by (rule taskModified_returns) (simp_all add: c_ex_fields env0_file_save)
  from newTask_c_ex obtain c' where n: "newTask env0 [] None c_ex = Returns 1 c'"
    and f: "filteredTasks c' = [t_milk, Task env0 3 []]" by blast
  show ?thesis
    using refilter_after_mutation [of env0 "ArgIndex 0" c_ex t_milk "[]" None 1 c'] d s m n f
    by (simp add: deleteTask_composed_groups taskModified_store_groups c_ex_fields
        done_filtered done_milk_filtered)
qed

section \<open>Construction\<close>

text \<open>
  C6. The constructor reads both flags under the key \<^verbatim>\<open>show_completed\<close>, the
  completed flag with default \<open>False\<close> and the future flag with default \<open>True\<close>: once
  the key is set, both flags are its value, whatever else the settings hold.
\<close>

theorem init_visibility_flags:
  "showCompleted (state_of (init env args st)) = settings_value st ''show_completed'' (VBool False)
   \<and> showFuture (state_of (init env args st)) = settings_value st ''show_completed'' (VBool True)
   \<and> (st ''show_completed'' = Some v \<longrightarrow>
        showCompleted (state_of (init env args st)) = v \<and> showFuture (state_of (init env args st)) = v)"
proof -
  have "showCompleted (state_of (updateCompletionStrings env c)) = showCompleted c
      \<and> showFuture (state_of (updateCompletionStrings env c)) = showFuture c" for c
    using updateCompletionStrings_view [of c env] by (simp add: same_view_def)
  then show ?thesis
    by (simp add: init_def settings_value_def)
qed

theorem init_visibility_flags_witness:
  "showCompleted (state_of (init env0 None (Map.empty(''show_completed'' \<mapsto> VBool False,
       ''show_future'' \<mapsto> VBool True)))) = VBool False
   \<and> showFuture (state_of (init env0 None (Map.empty(''show_completed'' \<mapsto> VBool False,
       ''show_future'' \<mapsto> VBool True)))) = VBool False
   \<and> showCompleted (state_of (init env0 None Map.empty)) = VBool False
   \<and> showFuture (state_of (init env0 None Map.empty)) = VBool True"
  using init_visibility_flags [of env0 None "Map.empty(''show_completed'' \<mapsto> VBool False,
       ''show_future'' \<mapsto> VBool True)" "VBool False"]
    init_visibility_flags [of env0 None Map.empty "VBool False"]
  by (simp add: settings_value_def)

section \<open>Failures of the file collaborator\<close>

text \<open>
  What \<^verbatim>\<open>save\<close> and \<^verbatim>\<open>open\<close> do when the file collaborator raises. \<^verbatim>\<open>open\<close>
  reports it with a string and returns. \<^verbatim>\<open>save\<close> hands the exception object to
  \<^verbatim>\<open>showError\<close>, whose emit on the \<^verbatim>\<open>str\<close> signal raises \<^verbatim>\<open>TypeError\<close>.
\<close>

lemma save_OSError:
  assumes "file_save env (filename (file c)) (file c) = Some ex" "exc_class_of ex = OSError"
  shows "save env c = Raises (Error TypeError ''error[str].emit(): argument 1 has unexpected type'') c"
  using assms by (simp add: save_def showError_def and_then_def)

lemma save_other_error:
  assumes "file_save env (filename (file c)) (file c) = Some ex" "exc_class_of ex \<noteq> OSError"
  shows "save env c = Raises ex c"
  using assms by (simp add: save_def)

lemma open_file_load_error:
  assumes "fname1 = (if prefix ''file:/'' fname then drop 6 fname else fname)"
    and "file_load env fname1 (file c) = Inl ex"
  shows "open_file env fname c =
     Returns () (emit (Sig_error (''Error opening file: '' @ fname1 @ ''.'' @ [CHR 0x0A]
                                  @ '' Exception:'' @ py_str ex)) c)"
  using assms(2) unfolding assms(1)
  by (simp add: open_file_def showError_def and_then_def Let_def)

text \<open>
  C7. Saving a file that cannot be written: \<^verbatim>\<open>save\<close> ends with a \<^verbatim>\<open>TypeError\<close>
  and no error signal has been emitted.
\<close>

theorem save_OSError_escapes:
  "save env0 c_ro = Raises (Error TypeError ''error[str].emit(): argument 1 has unexpected type'') c_ro
   \<and> emitted c_ro = []"
  by (rule conjI, rule save_OSError [where ex = "Error OSError ''Permission denied''"])
     (simp_all add: c_ro_def env0_def)

text \<open>
  C10. If the file's \<^verbatim>\<open>save\<close> raises, \<^verbatim>\<open>save\<close> leaves the controller as it was
  but for the signals emitted: the modified flag and the settings, \<^verbatim>\<open>last_open_file\<close>
  among them, keep their values. If it succeeds, the flag is cleared and
  \<^verbatim>\<open>last_open_file\<close> is the file's name.
\<close>

theorem save_failure_keeps_state:
  "(file_save env (filename (file c)) (file c) = Some ex \<longrightarrow>
      state_of (save env c) = c\<lparr>emitted := emitted (state_of (save env c))\<rparr>
      \<and> modified (state_of (save env c)) = modified c
      \<and> settings (state_of (save env c)) = settings c)
   \<and> (file_save env (filename (file c)) (file c) = None \<longrightarrow>
      modified (state_of (save env c)) = False
      \<and> settings (state_of (save env c)) ''last_open_file'' = Some (VStr (filename (file c))))"
proof (intro conjI impI)
  assume f: "file_save env (filename (file c)) (file c) = Some ex"
  then have "save env c = Raises (Error TypeError ''error[str].emit(): argument 1 has unexpected type'') c
     \<or> save env c = Raises ex c"
    using save_OSError [of env c ex] save_other_error [of env c ex] by blast
  then show "state_of (save env c) = c\<lparr>emitted := emitted (state_of (save env c))\<rparr>"
    "modified (state_of (save env c)) = modified c" "settings (state_of (save env c)) = settings c"
    by auto
next
  assume "file_save env (filename (file c)) (file c) = None"
  then have s: "save env c = setModified env False
     (c\<lparr>settings := setValue (settings c) ''last_open_file'' (VStr (filename (file c)))\<rparr>)"
    by (simp add: save_def Let_def)
  show "modified (state_of (save env c)) = False"
    unfolding s by (rule setModified_modified)
  show "settings (state_of (save env c)) ''last_open_file'' = Some (VStr (filename (file c)))"
    unfolding s by (simp add: setModified_settings setValue_def)
qed

theorem save_failure_keeps_state_witness:
  "modified (state_of (save env0 c_ro)) = True
   \<and> settings (state_of (save env0 c_ro)) ''last_open_file'' = None
   \<and> modified (state_of (save env0 (c_ex\<lparr>modified := True\<rparr>))) = False
   \<and> settings (state_of (save env0 (c_ex\<lparr>modified := True\<rparr>))) ''last_open_file'' = Some (VStr ''todo.txt'')"
proof -
  have 1: "file_save env0 (filename (file c_ro)) (file c_ro) = Some (Error OSError ''Permission denied'')"
    by (simp add: c_ro_def env0_def)
  have 2: "file_save env0 (filename (file (c_ex\<lparr>modified := True\<rparr>))) (file (c_ex\<lparr>modified := True\<rparr>)) = None"
    by (simp add: c_ex_def env0_def)
  show ?thesis
    using save_failure_keeps_state [of env0 c_ro "Error OSError ''Permission denied''"]
      save_failure_keeps_state [of env0 "c_ex\<lparr>modified := True\<rparr>" undefined] 1 2
    by (simp add: c_ro_def c_ex_def)
qed

section \<open>Deleting by position\<close>

text \<open>
  C9. \<^verbatim>\<open>deleteTask\<close> with an argument that is no task reads it as an index into the
  filtered list and goes on as with the task found there; with an index in range, the
  task at that position of the filtered list is the one removed from the store. With a
  task as argument, that task is removed.
\<close>

theorem deleteTask_by_index:
  "deleteTask env (ArgIndex i) c =
     (case py_getitem (filteredTasks c) i of
        Inl e \<Rightarrow> Raises e c
      | Inr t \<Rightarrow> deleteTask env (ArgTask t) c)
   \<and> (0 \<le> i \<and> i < int (length (filteredTasks c)) \<and> filteredTasks c ! nat i \<in> set (tasks (file c)) \<longrightarrow>
        tasks (file (state_of (deleteTask env (ArgIndex i) c))) =
          remove1 (filteredTasks c ! nat i) (tasks (file c)))
   \<and> (t \<in> set (tasks (file c)) \<longrightarrow>
        tasks (file (state_of (deleteTask env (ArgTask t) c))) = remove1 t (tasks (file c)))"
proof (intro conjI impI)
  show "deleteTask env (ArgIndex i) c =
     (case py_getitem (filteredTasks c) i of
        Inl e \<Rightarrow> Raises e c
      | Inr t \<Rightarrow> deleteTask env (ArgTask t) c)"
    by (simp add: deleteTask_def split: sum.splits)
next
  assume a: "0 \<le> i \<and> i < int (length (filteredTasks c)) \<and> filteredTasks c ! nat i \<in> set (tasks (file c))"
  then have "(case ArgIndex i of ArgTask t \<Rightarrow> Inr t | ArgIndex i \<Rightarrow> py_getitem (filteredTasks c) i)
      = Inr (filteredTasks c ! nat i)"
    by (simp add: py_getitem_def)
  then show "tasks (file (state_of (deleteTask env (ArgIndex i) c))) =
          remove1 (filteredTasks c ! nat i) (tasks (file c))"
    using a by (intro deleteTask_store) simp_all
next
  assume "t \<in> set (tasks (file c))"
  then show "tasks (file (state_of (deleteTask env (ArgTask t) c))) = remove1 t (tasks (file c))"
    by (intro deleteTask_store) simp_all
qed

theorem deleteTask_by_index_witness:
  "deleteTask env0 (ArgIndex 0) c_ex = deleteTask env0 (ArgTask t_milk) c_ex
   \<and> filteredTasks c_ex = [t_milk] \<and> tasks (file c_ex) = [t_done, t_milk]
   \<and> tasks (file (state_of (deleteTask env0 (ArgIndex 0) c_ex))) = [t_done]
   \<and> returned (deleteTask env0 (ArgIndex 0) c_ex)"
proof -
  have g: "(case ArgIndex 0 of ArgTask t \<Rightarrow> Inr t | ArgIndex i \<Rightarrow> py_getitem (filteredTasks c_ex) i) = Inr t_milk"
    by (simp add: c_ex_fields py_getitem_def)
  have d: "returned (deleteTask env0 (ArgIndex 0) c_ex)"
    using g by (rule deleteTask_returns) (simp_all add: c_ex_fields)
  show ?thesis
    using deleteTask_by_index [of env0 0 c_ex t_milk] d
    by (simp add: c_ex_fields py_getitem_def t_done_def t_milk_def)
qed

section \<open>The recent files\<close>

lemma count_list_remove1_le1:
  "count_list xs x \<le> 1 \<Longrightarrow> x \<notin> set (remove1 x xs)"
  by (induction xs) (auto simp: count_list_0_iff split: if_splits)

lemma updateRecentFile_list:
  assumes "recentFiles c = VList xs"
    and "py_int env (settings_value (settings c) ''max_recent_files'' (VInt 6)) = Inr n"
  shows "updateRecentFile env c =
     Returns () (emit Sig_recentFilesChanged
       (c\<lparr>recentFiles := VList (py_slice_to (filename (file c) # remove1 (filename (file c)) xs) n),
          settings := setValue (settings c) ''recent_files''
             (VList (py_slice_to (filename (file c) # remove1 (filename (file c)) xs) n))\<rparr>))"
  using assms by (simp add: updateRecentFile_def Let_def remove1_idem)

text \<open>
  C8, amended. If the recent files are a list in which the open file's name occurs at
  most once, and the configured maximum is at least 1, then \<^verbatim>\<open>updateRecentFile\<close>
  returns, the name is at the front of the list and occurs in it once, the list is no
  longer than the maximum, and it is what the settings keep under \<^verbatim>\<open>recent_files\<close>.
\<close>

theorem updateRecentFile_front_once_capped:
  assumes "recentFiles c = VList xs"
    and "count_list xs (filename (file c)) \<le> 1"
    and "py_int env (settings_value (settings c) ''max_recent_files'' (VInt 6)) = Inr n"
    and "1 \<le> n"
  shows "\<exists>ys. returned (updateRecentFile env c)
     \<and> recentFiles (state_of (updateRecentFile env c)) = VList ys
     \<and> settings (state_of (updateRecentFile env c)) ''recent_files'' = Some (VList ys)
     \<and> ys \<noteq> [] \<and> hd ys = filename (file c)
     \<and> count_list ys (filename (file c)) = 1
     \<and> int (length ys) \<le> n"
proof -
  define f where "f = filename (file c)"
  define ys where "ys = py_slice_to (f # remove1 f xs) n"
  from assms(4) obtain m where m: "nat n = Suc m"
    by (cases "nat n") auto
  have ys: "ys = f # take m (remove1 f xs)"
    using assms(4) m by (simp add: ys_def py_slice_to_def)
  have "f \<notin> set (remove1 f xs)"
    using assms(2) unfolding f_def by (rule count_list_remove1_le1)
  then have "f \<notin> set (take m (remove1 f xs))"
    using set_take_subset by fastforce
  then have c1: "count_list ys f = 1"
    by (simp add: ys count_list_0_iff)
  have len: "int (length ys) \<le> n"
    using m by (simp add: ys)
  have "updateRecentFile env c =
     Returns () (emit Sig_recentFilesChanged
       (c\<lparr>recentFiles := VList ys, settings := setValue (settings c) ''recent_files'' (VList ys)\<rparr>))"
    using updateRecentFile_list [OF assms(1,3)] by (simp add: ys_def f_def)
  then show ?thesis
    using c1 len by (intro exI [of _ ys]) (simp add: emit_def setValue_def ys f_def)
qed

theorem updateRecentFile_front_once_capped_witness:
  "returned (updateRecentFile env0 (c_ex\<lparr>recentFiles := VList [''a.txt'', ''todo.txt'', ''b.txt''],
       settings := Map.empty(''max_recent_files'' \<mapsto> VInt 2)\<rparr>))
   \<and> recentFiles (state_of (updateRecentFile env0 (c_ex\<lparr>recentFiles := VList [''a.txt'', ''todo.txt'', ''b.txt''],
       settings := Map.empty(''max_recent_files'' \<mapsto> VInt 2)\<rparr>))) = VList [''todo.txt'', ''a.txt'']"
proof -
  define c where "c = c_ex\<lparr>recentFiles := VList [''a.txt'', ''todo.txt'', ''b.txt''],
       settings := Map.empty(''max_recent_files'' \<mapsto> VInt 2)\<rparr>"
  have 1: "recentFiles c = VList [''a.txt'', ''todo.txt'', ''b.txt'']"
    by (simp add: c_def)
  have 2: "count_list [''a.txt'', ''todo.txt'', ''b.txt''] (filename (file c)) \<le> 1"
    by (simp add: c_def c_ex_def)
  have 3: "py_int env0 (settings_value (settings c) ''max_recent_files'' (VInt 6)) = Inr 2"
    by (simp add: c_def py_int_def settings_value_def)
  have 4: "(1::int) \<le> 2" by simp
  have 5: "recentFiles (state_of (updateRecentFile env0 c)) = VList [''todo.txt'', ''a.txt'']"
    using updateRecentFile_list [OF 1 3]
    by (simp add: emit_def py_slice_to_def c_def c_ex_def)
  from updateRecentFile_front_once_capped [OF 1 2 3 4] 5
  show ?thesis unfolding c_def by auto
qed

text \<open>
  C8. As stated the claim holds for every maximum and every list. With a maximum of 0
  the list is empty afterwards, so the open file is not at its front; and a persisted
  list that names the open file twice still names it twice afterwards.
\<close>

theorem updateRecentFile_counterexample:
  "returned (updateRecentFile env0 (c_ex\<lparr>settings := Map.empty(''max_recent_files'' \<mapsto> VInt 0)\<rparr>))
   \<and> recentFiles (state_of (updateRecentFile env0
         (c_ex\<lparr>settings := Map.empty(''max_recent_files'' \<mapsto> VInt 0)\<rparr>))) = VList []
   \<and> returned (updateRecentFile env0 c_ro)
   \<and> filename (file c_ro) = ''readonly.txt''
   \<and> recentFiles (state_of (updateRecentFile env0 c_ro)) = VList [''readonly.txt'', ''readonly.txt'']"
  by (simp add: updateRecentFile_def Let_def py_int_def settings_value_def py_slice_to_def emit_def
      c_ex_def c_ro_def)

end
